theory Spec2Isabelle
  imports Complex_Main "HOL-Library.Multiset" "HOL-Library.Sublist"
begin

section \<open>Data model of the table widget (src/src/Table.tsx)\<close>

text \<open>
  The widget is generic in the row type \<open>T\<close>. A row is read only through
  \<open>row[columnKey]\<close>, so a row is modelled as the function from field names to field
  values; \<open>'v\<close> is the type of the field values (\<open>T[keyof T]\<close>). JavaScript's
  \<open>===\<close> on field values is HOL equality and \<open><\<close> is the order of \<open>'v\<close>.
  Numbers are integers (\<open>int\<close>); floating point is outside the model.
\<close>

type_synonym 'v Row = "string \<Rightarrow> 'v"

datatype Direction = Asc | Desc

datatype Fixed = FixLeft | FixRight

text \<open>interface TableColumn: optional members are options; \<open>'n\<close> is React.ReactNode.\<close>

record ('v, 'n) TableColumn =
  key :: string
  title :: string
  sortable :: "bool option"
  fixed :: "Fixed option"
  width :: "int option"
  render :: "('v \<Rightarrow> 'v Row \<Rightarrow> 'n) option"

record SortState =
  columnKey :: string
  direction :: Direction

text \<open>The two \<open>useState\<close> cells of one widget instance.\<close>

record WidgetState =
  currentPage :: int
  sortState :: SortState

text \<open>The destructuring default \<open>pageSize = 10\<close>: only an absent value is replaced.\<close>

definition pageSizeOf :: "int option \<Rightarrow> int" where
  "pageSizeOf p = (case p of None \<Rightarrow> 10 | Some n \<Rightarrow> n)"

text \<open>\<open>useState(1)\<close> and \<open>useState({columnKey: defaultSortColumn || "", direction:
  defaultSortDirection || "asc"})\<close>; the empty string is falsy.\<close>

definition initialState :: "string option \<Rightarrow> Direction option \<Rightarrow> WidgetState" where
  "initialState defaultSortColumn defaultSortDirection =
     \<lparr> currentPage = 1,
       sortState = \<lparr> columnKey = (case defaultSortColumn of None \<Rightarrow> [] | Some c \<Rightarrow> c),
                     direction = (case defaultSortDirection of None \<Rightarrow> Asc | Some d \<Rightarrow> d) \<rparr> \<rparr>"

section \<open>Derived values of a render\<close>

text \<open>\<open>const totalPages = pageSize ? Math.ceil(data.length / pageSize) : 1\<close>;
  a number is falsy exactly when it is 0.\<close>

definition totalPages :: "'a list \<Rightarrow> int \<Rightarrow> int" where
  "totalPages data pageSize =
     (if pageSize \<noteq> 0 then \<lceil>real (length data) / real_of_int pageSize\<rceil> else 1)"

text \<open>The comparison function handed to \<open>sort\<close> (lines 65 to 79).\<close>

definition comparator :: "SortState \<Rightarrow> ('v::ord) Row \<Rightarrow> 'v Row \<Rightarrow> int" where
  "comparator s a b =
     (if columnKey s = [] then 0
      else let aValue = a (columnKey s); bValue = b (columnKey s) in
        if aValue = bValue then 0
        else let sortOrder = (if direction s = Asc then 1 else - 1) in
          sortOrder * (if aValue < bValue then - 1 else 1))"

text \<open>
  \<open>Array.prototype.sort(comparefn)\<close> belongs to the host. ECMAScript requires it to be
  stable, so for a consistent comparison function its result is the one stable sorted
  arrangement; the model computes that arrangement by stable insertion (an element is
  placed in front of the first element it does not compare greater than).
\<close>

fun sort_insert :: "('a \<Rightarrow> 'a \<Rightarrow> int) \<Rightarrow> 'a \<Rightarrow> 'a list \<Rightarrow> 'a list" where
  "sort_insert cmp x [] = [x]"
| "sort_insert cmp x (y # ys) =
     (if cmp x y \<le> 0 then x # y # ys else y # sort_insert cmp x ys)"

fun array_sort :: "('a \<Rightarrow> 'a \<Rightarrow> int) \<Rightarrow> 'a list \<Rightarrow> 'a list" where
  "array_sort cmp [] = []"
| "array_sort cmp (x # xs) = sort_insert cmp x (array_sort cmp xs)"

text \<open>\<open>const sortedData = [...data].sort(...)\<close>, as a value.\<close>

definition sortedData :: "('v::ord) Row list \<Rightarrow> SortState \<Rightarrow> 'v Row list" where
  "sortedData data s = array_sort (comparator s) data"

text \<open>
  The same line with the arrays in a store, for what it mutates. An array reference is
  an index into the store; \<open>[...data]\<close> allocates a new array holding the elements of
  \<open>data\<close>, and \<open>sort\<close> rearranges the array it is called on in place and returns it.
\<close>

type_synonym 'a store = "'a list list"

definition spread :: "'a store \<Rightarrow> nat \<Rightarrow> 'a store \<times> nat" where
  "spread st r = (st @ [st ! r], length st)"

definition sort_in_place :: "'a store \<Rightarrow> nat \<Rightarrow> ('a \<Rightarrow> 'a \<Rightarrow> int) \<Rightarrow> 'a store \<times> nat" where
  "sort_in_place st r cmp = (st[r := array_sort cmp (st ! r)], r)"

definition sortedData_store ::
  "(('v::ord) Row) store \<Rightarrow> nat \<Rightarrow> SortState \<Rightarrow> ('v Row) store \<times> nat" where
  "sortedData_store st dataRef s =
     (case spread st dataRef of (st1, copy) \<Rightarrow> sort_in_place st1 copy (comparator s))"

text \<open>
  \<open>Array.prototype.slice(start, end)\<close> on integer arguments: a negative index counts
  from the end, and both indices are clamped to the array.
\<close>

definition slice :: "'a list \<Rightarrow> int \<Rightarrow> int \<Rightarrow> 'a list" where
  "slice xs start fin =
     (let len = int (length xs);
          k = (if start < 0 then max (len + start) 0 else min start len);
          final = (if fin < 0 then max (len + fin) 0 else min fin len)
      in take (nat (final - k)) (drop (nat k) xs))"

definition startRowIndex :: "int \<Rightarrow> int \<Rightarrow> int" where
  "startRowIndex pageSize page = (if pageSize \<noteq> 0 then (page - 1) * pageSize else 0)"

definition endRowIndex :: "'a list \<Rightarrow> int \<Rightarrow> int \<Rightarrow> int" where
  "endRowIndex data pageSize page =
     (if pageSize \<noteq> 0 then startRowIndex pageSize page + pageSize else int (length data))"

definition visibleData :: "('v::ord) Row list \<Rightarrow> SortState \<Rightarrow> int \<Rightarrow> int \<Rightarrow> 'v Row list" where
  "visibleData data s pageSize page =
     slice (sortedData data s) (startRowIndex pageSize page) (endRowIndex data pageSize page)"

subsection \<open>Column partitions\<close>

definition fixedLeftColumns :: "('v, 'n) TableColumn list \<Rightarrow> ('v, 'n) TableColumn list" where
  "fixedLeftColumns columns = filter (\<lambda>column. fixed column = Some FixLeft) columns"

definition fixedRightColumns :: "('v, 'n) TableColumn list \<Rightarrow> ('v, 'n) TableColumn list" where
  "fixedRightColumns columns = rev (filter (\<lambda>column. fixed column = Some FixRight) columns)"

definition nofixedColumns :: "('v, 'n) TableColumn list \<Rightarrow> ('v, 'n) TableColumn list" where
  "nofixedColumns columns =
     filter (\<lambda>column. column \<notin> set (fixedLeftColumns columns)
                    \<and> column \<notin> set (fixedRightColumns columns)) columns"

subsection \<open>Table body\<close>

text \<open>The content of a cell: \<open>column.render ? column.render(row[column.key], row) :
  row[column.key]\<close>. Styles and keys of the elements are not part of the model.\<close>

datatype ('v, 'n) Cell = Raw 'v | Rendered 'n

definition Column :: "('v, 'n) TableColumn \<Rightarrow> 'v Row \<Rightarrow> ('v, 'n) Cell" where
  "Column column row =
     (case render column of
        Some f \<Rightarrow> Rendered (f (row (key column)) row)
      | None \<Rightarrow> Raw (row (key column)))"

definition BodyColumns :: "'v Row \<Rightarrow> ('v, 'n) TableColumn list \<Rightarrow> ('v, 'n) Cell list" where
  "BodyColumns row columns =
     (if length columns \<le> 0 then [] else map (\<lambda>column. Column column row) columns)"

definition tableBody ::
  "('v, 'n) TableColumn list \<Rightarrow> 'v Row list \<Rightarrow> ('v, 'n) Cell list list" where
  "tableBody columns visible =
     map (\<lambda>row. BodyColumns row (fixedLeftColumns columns)
               @ BodyColumns row (nofixedColumns columns)
               @ BodyColumns row (fixedRightColumns columns)) visible"

section \<open>Event handlers\<close>

text \<open>The \<open>onClick\<close> of a header's button (lines 120 to 126).\<close>

definition headerOnClick :: "('v, 'n) TableColumn \<Rightarrow> WidgetState \<Rightarrow> WidgetState" where
  "headerOnClick column st =
     st\<lparr> sortState := \<lparr> columnKey = key column,
                        direction = (if direction (sortState st) = Asc then Desc else Asc) \<rparr>,
         currentPage := 1 \<rparr>"

text \<open>The button exists only under \<open>column.sortable &&\<close>; a click on a header
  without a button is no event.\<close>

definition clickHeader :: "('v, 'n) TableColumn \<Rightarrow> WidgetState \<Rightarrow> WidgetState option" where
  "clickHeader column st =
     (if sortable column = Some True then Some (headerOnClick column st) else None)"

text \<open>\<open>Array.from(Array(totalPages).keys())\<close>: the page numbers \<open>0 .. totalPages - 1\<close>.
  \<open>Array(n)\<close> throws a RangeError for a negative length.\<close>

datatype error = RangeError

definition pageNumbers :: "int \<Rightarrow> error + int list" where
  "pageNumbers n = (if n < 0 then Inl RangeError else Inr [0 .. n - 1])"

text \<open>The \<open>onClick\<close> of a page button: \<open>setCurrentPage(pageNumber + 1)\<close>.\<close>

definition pageOnClick :: "int \<Rightarrow> WidgetState \<Rightarrow> WidgetState" where
  "pageOnClick pageNumber st = st\<lparr> currentPage := pageNumber + 1 \<rparr>"

section \<open>Sample data (src/src/App.tsx)\<close>

text \<open>Rows with the integer fields \<open>id\<close> and \<open>age = id + 1\<close> of the demo page.\<close>

definition demoRow :: "int \<Rightarrow> int Row" where
  "demoRow i = (\<lambda>k. if k = ''id'' then i else if k = ''age'' then i + 1 else 0)"

definition ageAsc :: SortState where
  "ageAsc = \<lparr> columnKey = ''age'', direction = Asc \<rparr>"

definition ageDesc :: SortState where
  "ageDesc = \<lparr> columnKey = ''age'', direction = Desc \<rparr>"

definition demoState :: WidgetState where
  "demoState = \<lparr> currentPage = 3, sortState = ageAsc \<rparr>"

definition ageColumn :: "(int, unit) TableColumn" where
  "ageColumn = \<lparr> key = ''age'', title = ''Age'', sortable = Some True, fixed = None,
                 width = None, render = None \<rparr>"

definition noSort :: SortState where
  "noSort = \<lparr> columnKey = [], direction = Asc \<rparr>"

definition demoRows :: "int Row list" where
  "demoRows = [demoRow 5, demoRow 2, demoRow 9]"

definition sevenRows :: "int Row list" where
  "sevenRows = map demoRow [3, 0, 6, 1, 5, 2, 4]"

definition demoStore :: "(int Row) store" where
  "demoStore = [[demoRow 1], demoRows]"

definition col :: "string \<Rightarrow> Fixed option \<Rightarrow> (int, unit) TableColumn" where
  "col t f = \<lparr> key = ''name'', title = t, sortable = None, fixed = f,
               width = Some 100, render = None \<rparr>"

definition demoColumns :: "(int, unit) TableColumn list" where
  "demoColumns = [col ''A'' (Some FixRight), col ''B'' None, col ''C'' (Some FixLeft),
                  col ''D'' (Some FixRight), col ''E'' (Some FixLeft), col ''F'' None]"

section \<open>Page count\<close>

lemma totalPages_positive:
  "0 < pageSize \<Longrightarrow> totalPages data pageSize = - ((- int (length data)) div pageSize)"
  unfolding totalPages_def using ceiling_divide_eq_div [of "int (length data)" pageSize]
  by simp

text \<open>
  C1, as stated, at zero rows: with a positive page size and no rows the page count is
  \<open>Math.ceil(0 / 10) = 0\<close>, not 1.
\<close>

theorem totalPages_empty_counterexample:
  "totalPages ([] :: int Row list) 10 = 0 \<and> totalPages ([] :: int Row list) 10 \<noteq> 1"
  by (simp add: totalPages_def)

text \<open>
  C1 (amended): for a positive page size the page count is \<open>ceil(rowCount / pageSize)\<close>,
  the least number of pages of that size holding all rows; it is at least 1 exactly when
  there is a row and is 0 for no rows. With paging disabled (page size 0) it is 1.
\<close>

theorem totalPages_ceiling:
  "(0 < pageSize \<longrightarrow>
      totalPages data pageSize = \<lceil>real (length data) / real_of_int pageSize\<rceil>
    \<and> int (length data) \<le> totalPages data pageSize * pageSize
    \<and> totalPages data pageSize * pageSize < int (length data) + pageSize
    \<and> (1 \<le> totalPages data pageSize \<longleftrightarrow> data \<noteq> [])
    \<and> (totalPages data pageSize = 0 \<longleftrightarrow> data = []))
   \<and> totalPages data 0 = 1"
proof -
  have zero: "totalPages data 0 = 1"
    by (simp add: totalPages_def)
  have pos: "int (length data) \<le> totalPages data pageSize * pageSize
      \<and> totalPages data pageSize * pageSize < int (length data) + pageSize
      \<and> (1 \<le> totalPages data pageSize \<longleftrightarrow> data \<noteq> [])
      \<and> (totalPages data pageSize = 0 \<longleftrightarrow> data = [])" if p: "0 < pageSize"
  proof -
    define n where "n = int (length data)"
    define t where "t = totalPages data pageSize"
    have t: "t = - ((- n) div pageSize)"
      unfolding t_def n_def using p by (rule totalPages_positive)
    have m: "(- n) mod pageSize = - n + t * pageSize"
      using t by (simp add: minus_mult_div_eq_mod [symmetric] algebra_simps)
    have lo: "0 \<le> (- n) mod pageSize" and hi: "(- n) mod pageSize < pageSize"
      using p by simp_all
    have b1: "n \<le> t * pageSize" using lo m by linarith
    have b2: "t * pageSize < n + pageSize" using hi m by linarith
    have n0: "0 \<le> n" by (simp add: n_def)
    have b3: "1 \<le> t \<longleftrightarrow> 0 < n"
    proof
      assume "1 \<le> t"
      then have "pageSize \<le> t * pageSize" using p by simp
      then show "0 < n" using b2 by linarith
    next
      assume "0 < n"
      then have "0 < t * pageSize" using b1 by linarith
      then have "0 < t" using p by (simp add: zero_less_mult_iff)
      then show "1 \<le> t" by linarith
    qed
    have b4: "t = 0 \<longleftrightarrow> n = 0"
    proof
      assume "t = 0"
      then show "n = 0" using b1 n0 by simp
    next
      assume "n = 0"
      then show "t = 0" using t by simp
    qed
    have e: "0 < n \<longleftrightarrow> data \<noteq> []" "n = 0 \<longleftrightarrow> data = []"
      by (simp_all add: n_def)
    show ?thesis
      using b1 b2 b3 b4 e unfolding t_def n_def by simp
  qed
  have c: "0 < pageSize \<Longrightarrow>
      totalPages data pageSize = \<lceil>real (length data) / real_of_int pageSize\<rceil>"
    by (simp add: totalPages_def)
  show ?thesis using zero pos c by blast
qed

theorem totalPages_ceiling_witness:
  "totalPages (map demoRow [0, 1, 2, 3, 4, 5, 6]) 3 = 3
   \<and> totalPages (map demoRow [0, 1, 2, 3, 4, 5, 6]) 0 = 1"
proof -
  have "int (length (map demoRow [0, 1, 2, 3, 4, 5, 6])) \<le> totalPages (map demoRow [0, 1, 2, 3, 4, 5, 6]) 3 * 3"
    and "totalPages (map demoRow [0, 1, 2, 3, 4, 5, 6]) 3 * 3 < int (length (map demoRow [0, 1, 2, 3, 4, 5, 6])) + 3"
    and "totalPages (map demoRow [0, 1, 2, 3, 4, 5, 6]) 0 = 1"
    using totalPages_ceiling [of 3 "map demoRow [0, 1, 2, 3, 4, 5, 6]"] by simp_all
  then show ?thesis by simp
qed

section \<open>Event handlers\<close>

text \<open>
  C2: a click on the header button of a sortable column makes that column the active sort
  column, sets the direction to the opposite of the direction held in the sort state
  (whatever column was active before), and sets the current page to 1.
\<close>

theorem clickHeader_sortable:
  "sortable column = Some True \<Longrightarrow>
     \<exists>st'. clickHeader column st = Some st'
       \<and> columnKey (sortState st') = key column
       \<and> direction (sortState st') = (case direction (sortState st) of Asc \<Rightarrow> Desc | Desc \<Rightarrow> Asc)
       \<and> currentPage st' = 1"
  by (cases "direction (sortState st)") (simp_all add: clickHeader_def headerOnClick_def)

theorem clickHeader_sortable_witness:
  "sortable ageColumn = Some True
   \<and> (\<exists>st'. clickHeader ageColumn demoState = Some st'
         \<and> columnKey (sortState st') = ''age''
         \<and> direction (sortState st') = Desc
         \<and> currentPage st' = 1)
   \<and> clickHeader ageColumn demoState = Some \<lparr> currentPage = 1, sortState = ageDesc \<rparr>"
proof -
  have s: "sortable ageColumn = Some True" by (simp add: ageColumn_def)
  have d: "direction (sortState demoState) = Asc" "key ageColumn = ''age''"
    by (simp_all add: demoState_def ageAsc_def ageColumn_def)
  have v: "clickHeader ageColumn demoState = Some \<lparr> currentPage = 1, sortState = ageDesc \<rparr>"
    by (simp add: clickHeader_def headerOnClick_def ageColumn_def demoState_def
        ageAsc_def ageDesc_def)
  show ?thesis
    using s v clickHeader_sortable [OF s, of demoState] d by simp
qed

section \<open>The host sort and the comparison function\<close>

lemma mset_sort_insert: "mset (sort_insert cmp x xs) = add_mset x (mset xs)"
  by (induction xs) simp_all

lemma mset_array_sort: "mset (array_sort cmp xs) = mset xs"
  by (induction xs) (simp_all add: mset_sort_insert)

lemma set_sort_insert: "set (sort_insert cmp x xs) = insert x (set xs)"
  using mset_sort_insert [of cmp x xs] by (metis set_mset_add_mset_insert set_mset_mset)

lemma set_array_sort: "set (array_sort cmp xs) = set xs"
  using mset_array_sort [of cmp xs] by (metis set_mset_mset)

lemma length_array_sort: "length (array_sort cmp xs) = length xs"
  using mset_array_sort [of cmp xs] by (metis size_mset)

lemma sorted_wrt_sort_insert:
  assumes total: "\<And>a b. cmp a b \<le> 0 \<or> cmp b a \<le> 0"
    and trans: "\<And>a b c. cmp a b \<le> 0 \<Longrightarrow> cmp b c \<le> 0 \<Longrightarrow> cmp a c \<le> 0"
    and srt: "sorted_wrt (\<lambda>a b. cmp a b \<le> 0) xs"
  shows "sorted_wrt (\<lambda>a b. cmp a b \<le> 0) (sort_insert cmp x xs)"
  using srt
proof (induction xs)
  case Nil
  show ?case by simp
next
  case (Cons y ys)
  show ?case
  proof (cases "cmp x y \<le> 0")
    case True
    have "cmp x z \<le> 0" if "z \<in> set ys" for z
      using True Cons.prems that trans [of x y z] by simp
    with True Cons.prems show ?thesis by simp
  next
    case False
    then have yx: "cmp y x \<le> 0" using total [of x y] by simp
    have "sorted_wrt (\<lambda>a b. cmp a b \<le> 0) (sort_insert cmp x ys)"
      using Cons.IH Cons.prems by simp
    with False yx Cons.prems show ?thesis
      by (simp add: set_sort_insert)
  qed
qed

lemma sorted_wrt_array_sort:
  assumes total: "\<And>a b. cmp a b \<le> 0 \<or> cmp b a \<le> 0"
    and trans: "\<And>a b c. cmp a b \<le> 0 \<Longrightarrow> cmp b c \<le> 0 \<Longrightarrow> cmp a c \<le> 0"
  shows "sorted_wrt (\<lambda>a b. cmp a b \<le> 0) (array_sort cmp xs)"
proof (induction xs)
  case Nil
  show ?case by simp
next
  case (Cons x xs)
  then show ?case
    using sorted_wrt_sort_insert [of cmp "array_sort cmp xs" x] total trans by simp
qed

lemma array_sort_all_equal:
  assumes "\<And>a b. cmp a b \<le> 0"
  shows "array_sort cmp xs = xs"
proof (induction xs)
  case Nil
  show ?case by simp
next
  case (Cons x xs)
  then show ?case using assms by (cases xs) simp_all
qed

lemma comparator_le_asc:
  fixes a b :: "('v::linorder) Row"
  assumes "columnKey s \<noteq> []" "direction s = Asc"
  shows "comparator s a b \<le> 0 \<longleftrightarrow> a (columnKey s) \<le> b (columnKey s)"
  using assms by (auto simp: comparator_def Let_def)

lemma comparator_le_desc:
  fixes a b :: "('v::linorder) Row"
  assumes "columnKey s \<noteq> []" "direction s = Desc"
  shows "comparator s a b \<le> 0 \<longleftrightarrow> b (columnKey s) \<le> a (columnKey s)"
  using assms by (auto simp: comparator_def Let_def)

lemma sortedData_asc_sorted:
  fixes data :: "('v::linorder) Row list"
  assumes "columnKey s \<noteq> []" "direction s = Asc"
  shows "sorted (map (\<lambda>row. row (columnKey s)) (sortedData data s))"
proof -
  have "sorted_wrt (\<lambda>a b. comparator s a b \<le> 0) (array_sort (comparator s) data)"
  proof (rule sorted_wrt_array_sort)
    show "comparator s a b \<le> 0 \<or> comparator s b a \<le> 0" for a b :: "'v Row"
      using assms by (auto simp: comparator_le_asc)
    show "comparator s a b \<le> 0 \<Longrightarrow> comparator s b c \<le> 0 \<Longrightarrow> comparator s a c \<le> 0"
      for a b c :: "'v Row"
      using assms by (auto simp: comparator_le_asc)
  qed
  then show ?thesis
    using assms by (simp add: sortedData_def sorted_map comparator_le_asc)
qed

lemma sortedData_desc_sorted:
  fixes data :: "('v::linorder) Row list"
  assumes "columnKey s \<noteq> []" "direction s = Desc"
  shows "sorted (rev (map (\<lambda>row. row (columnKey s)) (sortedData data s)))"
proof -
  have "sorted_wrt (\<lambda>a b. comparator s a b \<le> 0) (array_sort (comparator s) data)"
  proof (rule sorted_wrt_array_sort)
    show "comparator s a b \<le> 0 \<or> comparator s b a \<le> 0" for a b :: "'v Row"
      using assms by (auto simp: comparator_le_desc)
    show "comparator s a b \<le> 0 \<Longrightarrow> comparator s b c \<le> 0 \<Longrightarrow> comparator s a c \<le> 0"
      for a b c :: "'v Row"
      using assms by (auto simp: comparator_le_desc)
  qed
  then show ?thesis
    using assms by (simp add: sortedData_def sorted_wrt_map sorted_wrt_rev comparator_le_desc)
qed

lemma sortedData_no_key: "columnKey s = [] \<Longrightarrow> sortedData data s = data"
  unfolding sortedData_def by (rule array_sort_all_equal) (simp add: comparator_def)


lemma comparator_lt_asc:
  fixes a b :: "('v::linorder) Row"
  assumes "columnKey s \<noteq> []" "direction s = Asc" "a (columnKey s) < b (columnKey s)"
  shows "comparator s a b < 0 \<and> 0 < comparator s b a"
  using assms by (auto simp: comparator_def Let_def)

lemma comparator_lt_desc:
  fixes a b :: "('v::linorder) Row"
  assumes "columnKey s \<noteq> []" "direction s = Desc" "a (columnKey s) < b (columnKey s)"
  shows "0 < comparator s a b \<and> comparator s b a < 0"
  using assms by (cases "direction s") (auto simp: comparator_def Let_def)

lemma sortedData_demo_asc: "sortedData demoRows ageAsc = [demoRow 2, demoRow 5, demoRow 9]"
  by (simp add: sortedData_def demoRows_def comparator_def ageAsc_def demoRow_def)

lemma sortedData_demo_desc: "sortedData demoRows ageDesc = [demoRow 9, demoRow 5, demoRow 2]"
  by (simp add: sortedData_def demoRows_def comparator_def ageDesc_def demoRow_def)

text \<open>
  C3: for a non-empty sort column key the comparison function compares the named field of
  two rows: equal values compare equal; for unequal values the row with the smaller value
  is placed first when ascending (negative result, positive for the swapped pair) and
  last when descending. With an empty key every pair compares equal and the input order is
  kept. Hence the sorted data is a rearrangement of the rows whose field values ascend
  (ascending) or descend (descending).
\<close>

theorem sortedData_by_comparator:
  fixes a b :: "('v::linorder) Row" and data :: "'v Row list"
  shows
    "(columnKey s = [] \<longrightarrow> comparator s a b = 0 \<and> sortedData data s = data)
   \<and> (columnKey s \<noteq> [] \<longrightarrow>
        (a (columnKey s) = b (columnKey s) \<longrightarrow> comparator s a b = 0)
      \<and> (direction s = Asc \<and> a (columnKey s) < b (columnKey s) \<longrightarrow>
           comparator s a b < 0 \<and> 0 < comparator s b a)
      \<and> (direction s = Desc \<and> a (columnKey s) < b (columnKey s) \<longrightarrow>
           0 < comparator s a b \<and> comparator s b a < 0)
      \<and> (direction s = Asc \<longrightarrow>
           sorted (map (\<lambda>row. row (columnKey s)) (sortedData data s)))
      \<and> (direction s = Desc \<longrightarrow>
           sorted (rev (map (\<lambda>row. row (columnKey s)) (sortedData data s)))))
   \<and> mset (sortedData data s) = mset data"
proof -
  have none: "columnKey s = [] \<Longrightarrow> comparator s a b = 0"
    by (simp add: comparator_def)
  have eq: "a (columnKey s) = b (columnKey s) \<Longrightarrow> comparator s a b = 0"
    by (simp add: comparator_def)
  have perm: "mset (sortedData data s) = mset data"
    by (simp add: sortedData_def mset_array_sort)
  show ?thesis
    using none eq perm sortedData_no_key [of s data]
      comparator_lt_asc [of s a b] comparator_lt_desc [of s a b]
      sortedData_asc_sorted [of s data] sortedData_desc_sorted [of s data]
    by simp
qed

theorem sortedData_by_comparator_witness:
  "comparator noSort (demoRow 2) (demoRow 5) = 0
   \<and> sortedData demoRows noSort = demoRows
   \<and> comparator ageAsc (demoRow 2) (demoRow 5) < 0
   \<and> 0 < comparator ageAsc (demoRow 5) (demoRow 2)
   \<and> comparator ageAsc (demoRow 2) (demoRow 2) = 0
   \<and> 0 < comparator ageDesc (demoRow 2) (demoRow 5)
   \<and> comparator ageDesc (demoRow 5) (demoRow 2) < 0
   \<and> sorted (map (\<lambda>row. row ''age'') (sortedData demoRows ageAsc))
   \<and> sorted (rev (map (\<lambda>row. row ''age'') (sortedData demoRows ageDesc)))"
proof -
  have k: "columnKey noSort = []" "columnKey ageAsc = ''age''" "columnKey ageDesc = ''age''"
    "direction ageAsc = Asc" "direction ageDesc = Desc"
    by (simp_all add: noSort_def ageAsc_def ageDesc_def)
  have v: "demoRow 2 ''age'' = 3" "demoRow 5 ''age'' = 6"
    by (simp_all add: demoRow_def)
  have "comparator noSort (demoRow 2) (demoRow 5) = 0 \<and> sortedData demoRows noSort = demoRows"
    using sortedData_by_comparator [of noSort "demoRow 2" "demoRow 5" demoRows] k by simp
  moreover have "comparator ageAsc (demoRow 2) (demoRow 5) < 0
      \<and> 0 < comparator ageAsc (demoRow 5) (demoRow 2)
      \<and> sorted (map (\<lambda>row. row ''age'') (sortedData demoRows ageAsc))"
    using sortedData_by_comparator [of ageAsc "demoRow 2" "demoRow 5" demoRows] k v by simp
  moreover have "comparator ageAsc (demoRow 2) (demoRow 2) = 0"
    using sortedData_by_comparator [of ageAsc "demoRow 2" "demoRow 2" demoRows] k by simp
  moreover have "0 < comparator ageDesc (demoRow 2) (demoRow 5)
      \<and> comparator ageDesc (demoRow 5) (demoRow 2) < 0
      \<and> sorted (rev (map (\<lambda>row. row ''age'') (sortedData demoRows ageDesc)))"
    using sortedData_by_comparator [of ageDesc "demoRow 2" "demoRow 5" demoRows] k v by simp
  ultimately show ?thesis by simp
qed

text \<open>
  C4: when the values of the sort field are pairwise distinct (and the field's key is not
  the empty string, which means "no sort"), the ascending order is the reverse of the
  descending order.
\<close>

theorem sort_asc_rev_desc:
  fixes data :: "('v::linorder) Row list"
  assumes k: "k \<noteq> []" and d: "distinct (map (\<lambda>row. row k) data)"
  shows "sortedData data \<lparr>columnKey = k, direction = Asc\<rparr>
       = rev (sortedData data \<lparr>columnKey = k, direction = Desc\<rparr>)"
proof -
  define A where "A = sortedData data \<lparr>columnKey = k, direction = Asc\<rparr>"
  define D where "D = sortedData data \<lparr>columnKey = k, direction = Desc\<rparr>"
  define f where "f = (\<lambda>row :: 'v Row. row k)"
  have mA: "mset A = mset data" and mD: "mset D = mset data"
    by (simp_all add: A_def D_def sortedData_def mset_array_sort)
  have sA: "sorted (map f A)"
    using sortedData_asc_sorted [of "\<lparr>columnKey = k, direction = Asc\<rparr>" data] k
    by (simp add: A_def f_def)
  have sD: "sorted (map f (rev D))"
    using sortedData_desc_sorted [of "\<lparr>columnKey = k, direction = Desc\<rparr>" data] k
    by (simp add: D_def f_def rev_map)
  have mfA: "mset (map f A) = mset (map f data)"
    using mA by (metis mset_map)
  have mfD: "mset (map f (rev D)) = mset (map f data)"
    using mD by (metis mset_map mset_rev)
  have dA: "distinct (map f A)"
    using d mfA unfolding f_def by (metis mset_eq_imp_distinct_iff)
  have dD: "distinct (map f (rev D))"
    using d mfD unfolding f_def by (metis mset_eq_imp_distinct_iff)
  have "set (map f A) = set (map f (rev D))"
    using mfA mfD by (metis set_mset_mset)
  then have eq: "map f A = map f (rev D)"
    using sA sD dA dD by (intro sorted_distinct_set_unique)
  have "inj_on f (set data)"
    using d unfolding f_def by (simp add: distinct_map)
  moreover have "set A = set data" "set (rev D) = set data"
    using mA mD by (metis set_mset_mset, metis set_mset_mset set_rev)
  ultimately have "inj_on f (set A \<union> set (rev D))" by simp
  then have "A = rev D"
    using eq by (simp add: inj_on_map_eq_map)
  then show ?thesis by (simp add: A_def D_def)
qed

theorem sort_asc_rev_desc_witness:
  "distinct (map (\<lambda>row. row ''age'') demoRows)
   \<and> sortedData demoRows \<lparr>columnKey = ''age'', direction = Asc\<rparr> = [demoRow 2, demoRow 5, demoRow 9]
   \<and> sortedData demoRows \<lparr>columnKey = ''age'', direction = Desc\<rparr> = [demoRow 9, demoRow 5, demoRow 2]"
proof -
  have d: "distinct (map (\<lambda>row. row ''age'') demoRows)"
    by (simp add: demoRows_def demoRow_def)
  have k: "''age'' \<noteq> []" by simp
  have "sortedData demoRows \<lparr>columnKey = ''age'', direction = Asc\<rparr>
      = rev (sortedData demoRows \<lparr>columnKey = ''age'', direction = Desc\<rparr>)"
    using k d by (rule sort_asc_rev_desc)
  then show ?thesis
    using d sortedData_demo_desc by (simp add: ageDesc_def)
qed

section \<open>Pagination\<close>

lemma slice_nonneg:
  assumes "0 \<le> a" "0 \<le> b"
  shows "slice xs a b = take (nat (b - a)) (drop (nat a) xs)"
proof -
  consider "int (length xs) < a" | "a \<le> int (length xs)" "b \<le> int (length xs)"
    | "a \<le> int (length xs)" "int (length xs) < b" by linarith
  then show ?thesis
  proof cases
    case 1
    then show ?thesis using assms by (simp add: slice_def Let_def)
  next
    case 2
    then show ?thesis using assms by (simp add: slice_def Let_def)
  next
    case 3
    then have "length (drop (nat a) xs) \<le> nat (int (length xs) - a)"
      and "length (drop (nat a) xs) \<le> nat (b - a)"
      using assms by simp_all
    then show ?thesis using 3 assms by (simp add: slice_def Let_def)
  qed
qed

lemma concat_chunks:
  "concat (map (\<lambda>i. take n (drop (i * n) xs)) [0..<m]) = take (m * n) xs"
proof (induction m)
  case 0
  show ?case by simp
next
  case (Suc m)
  have "take (Suc m * n) xs = take (m * n + n) xs"
    by (simp add: add.commute)
  also have "\<dots> = take (m * n) xs @ take n (drop (m * n) xs)"
    by (rule take_add)
  finally show ?case using Suc by simp
qed

lemma upto_as_upt: "[1 .. int m] = map (\<lambda>i. int i + 1) [0..<m]"
proof (induction m)
  case 0
  show ?case by simp
next
  case (Suc m)
  have "[1 .. int (Suc m)] = [1 .. int m] @ [int m + 1]"
    using upto_rec2 [of 1 "int m + 1"] by (simp add: add.commute)
  with Suc show ?case by simp
qed

lemma drop_take_nth:
  assumes "b \<le> length xs"
  shows "drop a (take b xs) = map (\<lambda>i. xs ! i) [a ..< b]"
proof (rule nth_equalityI)
  show "length (drop a (take b xs)) = length (map (\<lambda>i. xs ! i) [a ..< b])"
    using assms by simp
  show "drop a (take b xs) ! i = map (\<lambda>i. xs ! i) [a ..< b] ! i"
    if "i < length (drop a (take b xs))" for i
    using that assms by simp
qed

lemma visibleData_paged:
  assumes "0 < pageSize" "1 \<le> page"
  shows "visibleData data s pageSize page
       = take (nat pageSize) (drop (nat ((page - 1) * pageSize)) (sortedData data s))"
proof -
  have "0 \<le> (page - 1) * pageSize" using assms by simp
  then show ?thesis
    using assms by (simp add: visibleData_def startRowIndex_def endRowIndex_def slice_nonneg)
qed

lemma visibleData_unpaged: "visibleData data s 0 page = sortedData data s"
  by (simp add: visibleData_def startRowIndex_def endRowIndex_def slice_def Let_def
      sortedData_def length_array_sort)

text \<open>
  C5: for a positive page size, the visible slices of the pages 1 to totalPages,
  concatenated in page order, are the sorted data, and so hold every row exactly as
  often as the input does.
\<close>

theorem pages_concat:
  fixes data :: "('v::ord) Row list"
  assumes p: "0 < pageSize"
  shows "concat (map (visibleData data s pageSize) [1 .. totalPages data pageSize])
           = sortedData data s
       \<and> mset (concat (map (visibleData data s pageSize) [1 .. totalPages data pageSize]))
           = mset data"
proof -
  define n where "n = nat pageSize"
  define m where "m = nat (totalPages data pageSize)"
  define xs where "xs = sortedData data s"
  have len: "length xs = length data"
    by (simp add: xs_def sortedData_def length_array_sort)
  have t: "totalPages data pageSize = - ((- int (length data)) div pageSize)"
    using p by (rule totalPages_positive)
  have "(- int (length data)) div pageSize \<le> 0"
    using p by (simp add: div_nonpos_pos_le0)
  then have t0: "0 \<le> totalPages data pageSize" using t by simp
  have "(- int (length data)) mod pageSize = - int (length data) + totalPages data pageSize * pageSize"
    using t by (simp add: minus_mult_div_eq_mod [symmetric] algebra_simps)
  moreover have "0 \<le> (- int (length data)) mod pageSize" using p by simp
  ultimately have "int (length data) \<le> totalPages data pageSize * pageSize" by linarith
  then have "int (length data) \<le> int m * int n"
    using t0 p by (simp add: m_def n_def)
  then have cover: "length xs \<le> m * n"
    using len by (metis of_nat_le_iff of_nat_mult)
  have page: "visibleData data s pageSize (int i + 1) = take n (drop (i * n) xs)" for i
  proof -
    have "nat ((int i + 1 - 1) * pageSize) = i * n"
      using p by (simp add: n_def nat_mult_distrib)
    then show ?thesis
      using visibleData_paged [of pageSize "int i + 1" data s] p by (simp add: n_def xs_def)
  qed
  have "[1 .. totalPages data pageSize] = map (\<lambda>i. int i + 1) [0..<m]"
    using upto_as_upt [of m] t0 by (simp add: m_def)
  then have "concat (map (visibleData data s pageSize) [1 .. totalPages data pageSize])
      = concat (map (\<lambda>i. take n (drop (i * n) xs)) [0..<m])"
    by (simp add: page comp_def)
  also have "\<dots> = take (m * n) xs" by (rule concat_chunks)
  also have "\<dots> = xs" using cover by simp
  finally have c: "concat (map (visibleData data s pageSize) [1 .. totalPages data pageSize]) = xs" .
  moreover have "mset xs = mset data"
    by (simp add: xs_def sortedData_def mset_array_sort)
  ultimately show ?thesis by (simp add: xs_def)
qed

theorem pages_concat_witness:
  "(0::int) < 3
   \<and> concat (map (visibleData sevenRows ageAsc 3) [1, 2, 3]) = sortedData sevenRows ageAsc
   \<and> mset (concat (map (visibleData sevenRows ageAsc 3) [1, 2, 3])) = mset sevenRows"
proof -
  have "totalPages sevenRows 3 = 3"
    by (simp add: totalPages_positive sevenRows_def)
  moreover have "[1 .. 3] = [1, 2, 3 :: int]"
    by (simp add: upto_rec1)
  ultimately have e: "[1 .. totalPages sevenRows 3] = [1, 2, 3]" by simp
  have h: "(0::int) < 3" by simp
  note c = pages_concat [OF h, of sevenRows ageAsc, unfolded e]
  show ?thesis using h c by blast
qed

text \<open>
  C7: the visible rows are \<open>sortedData.slice(start, end)\<close> with
  \<open>start = (currentPage - 1) * pageSize\<close> and \<open>end = start + pageSize\<close>, or
  \<open>0\<close> and \<open>rowCount\<close> when paging is disabled. With paging disabled these are all
  rows; for a positive page size and a page from 1 on they are the rows at the indices
  from start up to, and not including, end (as far as the rows go).
\<close>

theorem visibleData_slice:
  fixes data :: "('v::ord) Row list"
  shows "visibleData data s pageSize page
           = slice (sortedData data s)
               (if pageSize = 0 then 0 else (page - 1) * pageSize)
               (if pageSize = 0 then int (length data) else (page - 1) * pageSize + pageSize)
       \<and> (pageSize = 0 \<longrightarrow> visibleData data s pageSize page = sortedData data s)
       \<and> (0 < pageSize \<and> 1 \<le> page \<longrightarrow>
            visibleData data s pageSize page
              = take (nat pageSize) (drop (nat ((page - 1) * pageSize)) (sortedData data s))
          \<and> visibleData data s pageSize page
              = map (\<lambda>i. sortedData data s ! i)
                    [nat ((page - 1) * pageSize)
                       ..< min (nat ((page - 1) * pageSize + pageSize)) (length data)])"
proof -
  define xs where "xs = sortedData data s"
  define a where "a = nat ((page - 1) * pageSize)"
  have len: "length xs = length data"
    by (simp add: xs_def sortedData_def length_array_sort)
  have idx: "take (nat pageSize) (drop a xs)
      = map (\<lambda>i. xs ! i) [a ..< min (nat ((page - 1) * pageSize + pageSize)) (length data)]"
    if p: "0 < pageSize" and g: "1 \<le> page"
  proof -
    have b: "nat ((page - 1) * pageSize + pageSize) = a + nat pageSize"
      using g p by (simp add: a_def nat_add_distrib)
    have "take (nat pageSize) (drop a xs) = drop a (take (a + nat pageSize) xs)"
      by (simp add: drop_take add.commute)
    also have "\<dots> = drop a (take (min (a + nat pageSize) (length xs)) xs)"
      by (simp add: min_def)
    also have "\<dots> = map (\<lambda>i. xs ! i) [a ..< min (a + nat pageSize) (length xs)]"
      by (rule drop_take_nth) simp
    finally show ?thesis using b len by simp
  qed
  have raw: "visibleData data s pageSize page
           = slice (sortedData data s)
               (if pageSize = 0 then 0 else (page - 1) * pageSize)
               (if pageSize = 0 then int (length data) else (page - 1) * pageSize + pageSize)"
    by (simp add: visibleData_def startRowIndex_def endRowIndex_def)
  have off: "pageSize = 0 \<Longrightarrow> visibleData data s pageSize page = sortedData data s"
    using visibleData_unpaged [of data s page] by simp
  have on: "0 < pageSize \<Longrightarrow> 1 \<le> page \<Longrightarrow> visibleData data s pageSize page
      = take (nat pageSize) (drop a xs)"
    using visibleData_paged [of pageSize page data s] by (simp add: xs_def a_def)
  show ?thesis
    using raw off on idx unfolding xs_def a_def by metis
qed

lemma sortedData_sevenRows: "sortedData sevenRows ageAsc = map demoRow [0, 1, 2, 3, 4, 5, 6]"
  by (simp add: sortedData_def sevenRows_def comparator_def ageAsc_def demoRow_def)

theorem visibleData_slice_witness:
  "visibleData sevenRows ageAsc 0 5 = map demoRow [0, 1, 2, 3, 4, 5, 6]
   \<and> (0::int) < 3 \<and> (1::int) \<le> 2
   \<and> visibleData sevenRows ageAsc 3 2 = [demoRow 3, demoRow 4, demoRow 5]
   \<and> visibleData sevenRows ageAsc 3 3 = [demoRow 6]"
proof -
  have z: "(0::int) = 0" and h2: "(0::int) < 3 \<and> (1::int) \<le> 2"
    and h3: "(0::int) < 3 \<and> (1::int) \<le> 3"
    by simp_all
  have a: "visibleData sevenRows ageAsc 0 5 = sortedData sevenRows ageAsc"
    using visibleData_slice [of sevenRows ageAsc 0 5] z by blast
  have b: "visibleData sevenRows ageAsc 3 2
      = take (nat 3) (drop (nat ((2 - 1) * 3)) (sortedData sevenRows ageAsc))"
    using visibleData_slice [of sevenRows ageAsc 3 2] h2 by blast
  have c: "visibleData sevenRows ageAsc 3 3
      = take (nat 3) (drop (nat ((3 - 1) * 3)) (sortedData sevenRows ageAsc))"
    using visibleData_slice [of sevenRows ageAsc 3 3] h3 by blast
  show ?thesis
    using a b c by (simp add: sortedData_sevenRows)
qed

text \<open>
  C9: for a positive page size and a page whose start index is at or past the row count,
  the visible slice is empty, the table body has no rows, and building the page buttons
  raises no RangeError.
\<close>

theorem visibleData_past_end:
  fixes data :: "('v::ord) Row list" and columns :: "('v, 'n) TableColumn list"
  assumes p: "0 < pageSize" and past: "int (length data) \<le> (page - 1) * pageSize"
  shows "visibleData data s pageSize page = []
       \<and> tableBody columns (visibleData data s pageSize page) = []
       \<and> (\<exists>ns. pageNumbers (totalPages data pageSize) = Inr ns)"
proof -
  have "0 \<le> (page - 1) * pageSize" using past by linarith
  then have "1 \<le> page" using p by (simp add: zero_le_mult_iff)
  then have v: "visibleData data s pageSize page
      = take (nat pageSize) (drop (nat ((page - 1) * pageSize)) (sortedData data s))"
    using p by (rule visibleData_paged [rotated])
  have "length (sortedData data s) \<le> nat ((page - 1) * pageSize)"
    using past by (simp add: sortedData_def length_array_sort)
  then have e: "visibleData data s pageSize page = []" using v by simp
  have "(- int (length data)) div pageSize \<le> 0"
    using p by (simp add: div_nonpos_pos_le0)
  then have "0 \<le> totalPages data pageSize"
    using totalPages_positive [OF p, of data] by simp
  then have "\<exists>ns. pageNumbers (totalPages data pageSize) = Inr ns"
    by (simp add: pageNumbers_def)
  then show ?thesis using e by (simp add: tableBody_def)
qed

theorem visibleData_past_end_witness:
  "(0::int) < 3 \<and> int (length sevenRows) \<le> (4 - 1) * 3
   \<and> visibleData sevenRows ageAsc 3 4 = []
   \<and> tableBody demoColumns (visibleData sevenRows ageAsc 3 4) = []
   \<and> pageNumbers (totalPages sevenRows 3) = Inr [0, 1, 2]"
proof -
  have h: "(0::int) < 3" by simp
  have g: "int (length sevenRows) \<le> (4 - 1) * 3" by (simp add: sevenRows_def)
  have t: "totalPages sevenRows 3 = 3"
    by (simp add: totalPages_positive sevenRows_def)
  have "[0 .. 2] = [0, 1, 2 :: int]" by (simp add: upto_rec1)
  then have n: "pageNumbers (totalPages sevenRows 3) = Inr [0, 1, 2]"
    using t by (simp add: pageNumbers_def)
  show ?thesis
    using visibleData_past_end [OF h g, of ageAsc demoColumns] h g n by blast
qed

section \<open>Column partitions\<close>

lemma nofixedColumns_filter:
  "nofixedColumns columns
     = filter (\<lambda>column. fixed column \<noteq> Some FixLeft \<and> fixed column \<noteq> Some FixRight) columns"
  unfolding nofixedColumns_def fixedLeftColumns_def fixedRightColumns_def
  by (rule filter_cong) auto

lemma mset_three_filters:
  "mset (filter (\<lambda>c. fixed c = Some FixLeft) cs)
     + mset (filter (\<lambda>c. fixed c \<noteq> Some FixLeft \<and> fixed c \<noteq> Some FixRight) cs)
     + mset (filter (\<lambda>c. fixed c = Some FixRight) cs) = mset cs"
  by (induction cs) auto

text \<open>
  C6: the left-fixed, unfixed and right-fixed groups are pairwise disjoint, each keeps
  the order the columns were given in (the right-fixed group before its reversal), and
  together they hold every column exactly as often as the column list does.
\<close>

theorem column_partition:
  "set (fixedLeftColumns columns) \<inter> set (nofixedColumns columns) = {}
   \<and> set (fixedLeftColumns columns) \<inter> set (fixedRightColumns columns) = {}
   \<and> set (nofixedColumns columns) \<inter> set (fixedRightColumns columns) = {}
   \<and> subseq (fixedLeftColumns columns) columns
   \<and> subseq (nofixedColumns columns) columns
   \<and> subseq (rev (fixedRightColumns columns)) columns
   \<and> mset (fixedLeftColumns columns @ nofixedColumns columns @ fixedRightColumns columns)
       = mset columns"
proof -
  have d1: "set (fixedLeftColumns columns) \<inter> set (nofixedColumns columns) = {}"
    by (auto simp: nofixedColumns_def)
  have d2: "set (fixedLeftColumns columns) \<inter> set (fixedRightColumns columns) = {}"
    by (auto simp: fixedLeftColumns_def fixedRightColumns_def)
  have d3: "set (nofixedColumns columns) \<inter> set (fixedRightColumns columns) = {}"
    by (auto simp: nofixedColumns_def)
  have o1: "subseq (fixedLeftColumns columns) columns"
    by (simp add: fixedLeftColumns_def)
  have o2: "subseq (nofixedColumns columns) columns"
    by (simp add: nofixedColumns_def)
  have o3: "subseq (rev (fixedRightColumns columns)) columns"
    by (simp add: fixedRightColumns_def)
  have m: "mset (fixedLeftColumns columns @ nofixedColumns columns @ fixedRightColumns columns)
      = mset columns"
    using mset_three_filters [of columns]
    by (simp add: nofixedColumns_filter fixedLeftColumns_def fixedRightColumns_def add.assoc)
  show ?thesis using d1 d2 d3 o1 o2 o3 m by simp
qed

theorem column_partition_witness:
  "fixedLeftColumns demoColumns = [col ''C'' (Some FixLeft), col ''E'' (Some FixLeft)]
   \<and> nofixedColumns demoColumns = [col ''B'' None, col ''F'' None]
   \<and> fixedRightColumns demoColumns = [col ''D'' (Some FixRight), col ''A'' (Some FixRight)]
   \<and> mset (fixedLeftColumns demoColumns @ nofixedColumns demoColumns
            @ fixedRightColumns demoColumns) = mset demoColumns"
proof -
  have "fixedLeftColumns demoColumns = [col ''C'' (Some FixLeft), col ''E'' (Some FixLeft)]"
    by (simp add: fixedLeftColumns_def demoColumns_def col_def)
  moreover have "fixedRightColumns demoColumns = [col ''D'' (Some FixRight), col ''A'' (Some FixRight)]"
    by (simp add: fixedRightColumns_def demoColumns_def col_def)
  moreover have "nofixedColumns demoColumns = [col ''B'' None, col ''F'' None]"
    by (simp add: nofixedColumns_def fixedLeftColumns_def fixedRightColumns_def
        demoColumns_def col_def)
  ultimately show ?thesis
    using column_partition [of demoColumns] by simp
qed

section \<open>The input array is not mutated\<close>

text \<open>
  C8: computing the sorted data sorts a fresh copy: the array passed in, and every other
  array that existed before, holds the same elements in the same order afterwards; the
  new array holds the sorted data.
\<close>

theorem sortedData_store_frame:
  fixes st :: "(('v::ord) Row) store"
  assumes "dataRef < length st"
  shows "snd (sortedData_store st dataRef s) = length st
       \<and> fst (sortedData_store st dataRef s) ! dataRef = st ! dataRef
       \<and> (\<forall>r < length st. fst (sortedData_store st dataRef s) ! r = st ! r)
       \<and> length (fst (sortedData_store st dataRef s)) = Suc (length st)
       \<and> fst (sortedData_store st dataRef s) ! snd (sortedData_store st dataRef s)
           = sortedData (st ! dataRef) s"
  using assms
  by (simp add: sortedData_store_def spread_def sort_in_place_def sortedData_def nth_append)

theorem sortedData_store_frame_witness:
  "(1::nat) < length demoStore
   \<and> fst (sortedData_store demoStore 1 ageAsc) ! 1 = demoStore ! 1
   \<and> fst (sortedData_store demoStore 1 ageAsc) ! 0 = demoStore ! 0
   \<and> sortedData_store demoStore 1 ageAsc
       = ([[demoRow 1], [demoRow 5, demoRow 2, demoRow 9], [demoRow 2, demoRow 5, demoRow 9]], 2)"
proof -
  have h: "(1::nat) < length demoStore" by (simp add: demoStore_def)
  have "sortedData_store demoStore 1 ageAsc = ([[demoRow 1], demoRows, sortedData demoRows ageAsc], 2)"
    by (simp add: sortedData_store_def spread_def sort_in_place_def sortedData_def demoStore_def)
  then have v: "sortedData_store demoStore 1 ageAsc
       = ([[demoRow 1], [demoRow 5, demoRow 2, demoRow 9], [demoRow 2, demoRow 5, demoRow 9]], 2)"
    using sortedData_demo_asc by (simp add: demoRows_def)
  have l: "(0::nat) < length demoStore" by (simp add: demoStore_def)
  show ?thesis
    using h l v sortedData_store_frame [OF h, of ageAsc] by blast
qed

section \<open>Page buttons\<close>

text \<open>
  C10: a click on the button of page number \<open>pageNumber\<close> (labelled \<open>pageNumber + 1\<close>)
  sets the current page to \<open>pageNumber + 1\<close> and leaves the sort state as it was; on the
  button of the page already current the state stays the same.
\<close>

theorem pageOnClick_frame:
  "currentPage (pageOnClick pageNumber st) = pageNumber + 1
   \<and> sortState (pageOnClick pageNumber st) = sortState st
   \<and> (currentPage st = pageNumber + 1 \<longrightarrow> pageOnClick pageNumber st = st)"
  by (simp add: pageOnClick_def)

theorem pageOnClick_frame_witness:
  "currentPage demoState = 2 + 1 \<and> pageOnClick 2 demoState = demoState
   \<and> sortState (pageOnClick 7 demoState) = ageAsc
   \<and> currentPage (pageOnClick 7 demoState) = 8"
  using pageOnClick_frame [of 2 demoState] pageOnClick_frame [of 7 demoState]
  by (simp add: demoState_def)

end
